theory Spec2Isabelle
  imports Complex_Main "HOL-Library.Char_ord" "HOL-Library.List_Lexorder"
begin

section \<open>Python values\<close>

text \<open>
  The script \<^verbatim>\<open>scripts/3_compute_distances.py\<close> is embedded function by function.

  A Python \<^verbatim>\<open>str\<close> is a \<^typ>\<open>string\<close>: one \<^typ>\<open>char\<close> per code point, so the
  model covers the strings whose code points lie below U+0100 (ASCII and Latin-1).
  The character classes below are Python's, restricted to that range.

  A Python \<^verbatim>\<open>float\<close> is a \<^typ>\<open>real\<close> or one of the three special values. Finite
  arithmetic is exact: rounding to binary64 and overflow of finite results are not
  part of the model. The special values follow IEEE 754.

  A call that can raise returns a sum: \<open>Inl e\<close> is the exception, \<open>Inr v\<close> the value.
\<close>

datatype pyerror =
  ValueError | OverflowError | ZeroDivisionError | TypeError | UnicodeDecodeError | OSError
  | CsvError

datatype pyfloat = Fin real | PInf | NInf | NaN

subsection \<open>Characters and strings\<close>

definition isspace :: "char \<Rightarrow> bool" where
  \<comment> \<open>\<^verbatim>\<open>str.isspace\<close> of one character: TAB, LF, VT, FF, CR, FS, GS, RS, US, space, NEL, NBSP\<close>
  "isspace c = ((of_char c :: nat) \<in> {9, 10, 11, 12, 13, 28, 29, 30, 31, 32, 133, 160})"

definition is_decimal :: "char \<Rightarrow> bool" where
  \<comment> \<open>general category Nd, which is what \<^verbatim>\<open>\d\<close>, \<^verbatim>\<open>int\<close> and \<^verbatim>\<open>float\<close> accept as a digit\<close>
  "is_decimal c = (48 \<le> (of_char c :: nat) \<and> (of_char c :: nat) \<le> 57)"

definition isdigit_char :: "char \<Rightarrow> bool" where
  \<comment> \<open>\<^verbatim>\<open>str.isdigit\<close> of one character: the decimals and the superscripts two, three, one\<close>
  "isdigit_char c = (is_decimal c \<or> (of_char c :: nat) \<in> {178, 179, 185})"

definition digit_val :: "char \<Rightarrow> nat" where
  "digit_val c = of_char c - 48"

definition lower_char :: "char \<Rightarrow> char" where
  \<comment> \<open>\<^verbatim>\<open>str.lower\<close> of one character: A..Z and the Latin-1 capitals (not the multiplication sign)\<close>
  "lower_char c =
     (let n = (of_char c :: nat) in
      if (65 \<le> n \<and> n \<le> 90) \<or> (192 \<le> n \<and> n \<le> 222 \<and> n \<noteq> 215) then char_of (n + 32) else c)"

definition lower :: "string \<Rightarrow> string" where
  "lower s = map lower_char s"

definition endswith :: "string \<Rightarrow> string \<Rightarrow> bool" where
  "endswith s suf = (length suf \<le> length s \<and> drop (length s - length suf) s = suf)"

definition strip :: "string \<Rightarrow> string" where
  "strip s = rev (dropWhile isspace (rev (dropWhile isspace s)))"

fun split_from :: "string \<Rightarrow> string \<Rightarrow> string list" where
  \<comment> \<open>\<^verbatim>\<open>str.split()\<close>: \<open>cur\<close> is the token being read\<close>
  "split_from cur [] = (if cur = [] then [] else [cur])"
| "split_from cur (c # cs) =
     (if isspace c then (if cur = [] then split_from [] cs else cur # split_from [] cs)
      else split_from (cur @ [c]) cs)"

definition split_ws :: "string \<Rightarrow> string list" where
  "split_ws s = split_from [] s"

subsection \<open>The built-in conversions\<close>

fun digitpart :: "string \<Rightarrow> bool" where
  \<comment> \<open>the grammar's \<^verbatim>\<open>digit (["_"] digit)*\<close>\<close>
  "digitpart [] = False"
| "digitpart [c] = is_decimal c"
| "digitpart (c # d # cs) =
     (is_decimal c \<and> (if d = CHR ''_'' then digitpart cs else digitpart (d # cs)))"

definition digits_val :: "string \<Rightarrow> nat" where
  "digits_val s = foldl (\<lambda>a c. 10 * a + digit_val c) 0 (filter is_decimal s)"

definition split_sign :: "string \<Rightarrow> bool \<times> string" where
  "split_sign s =
     (case s of
        [] \<Rightarrow> (False, [])
      | c # cs \<Rightarrow> if c = CHR ''-'' then (True, cs) else if c = CHR ''+'' then (False, cs) else (False, s))"

definition split_first :: "(char \<Rightarrow> bool) \<Rightarrow> string \<Rightarrow> string \<times> string option" where
  \<comment> \<open>the text before the first character with \<open>p\<close>, and the text after it if there is one\<close>
  "split_first p s =
     (takeWhile (\<lambda>c. \<not> p c) s,
      case dropWhile (\<lambda>c. \<not> p c) s of [] \<Rightarrow> None | _ # r \<Rightarrow> Some r)"

definition parse_number :: "string \<Rightarrow> (nat \<times> nat) option" where
  \<comment> \<open>\<^verbatim>\<open>[digitpart] "." digitpart | digitpart ["."]\<close>: the digits' value and the number of fraction digits\<close>
  "parse_number m =
     (case split_first (\<lambda>c. c = CHR ''.'') m of
        (ip, None) \<Rightarrow> if digitpart ip then Some (digits_val ip, 0) else None
      | (ip, Some fp) \<Rightarrow>
          if fp = [] then (if digitpart ip then Some (digits_val ip, 0) else None)
          else if digitpart fp \<and> (ip = [] \<or> digitpart ip)
               then Some (digits_val (ip @ fp), length (filter is_decimal fp))
          else None)"

definition parse_exponent :: "string \<Rightarrow> int option" where
  "parse_exponent e =
     (case split_sign e of
        (neg, ds) \<Rightarrow>
          if digitpart ds then Some (if neg then - int (digits_val ds) else int (digits_val ds))
          else None)"

definition float_of_str :: "string \<Rightarrow> pyfloat option" where
  \<comment> \<open>\<^verbatim>\<open>float(t)\<close> of a string; \<open>None\<close> is its \<^verbatim>\<open>ValueError\<close>\<close>
  "float_of_str t =
     (case split_sign (strip t) of
        (neg, body) \<Rightarrow>
          if lower body = ''inf'' \<or> lower body = ''infinity'' then Some (if neg then NInf else PInf)
          else if lower body = ''nan'' then Some NaN
          else
            (case split_first (\<lambda>c. c = CHR ''e'' \<or> c = CHR ''E'') body of
               (m, ex) \<Rightarrow>
                 (case (parse_number m, case ex of None \<Rightarrow> Some 0 | Some e \<Rightarrow> parse_exponent e) of
                    (Some (d, k), Some x) \<Rightarrow>
                      Some (Fin ((if neg then - 1 else 1) * real d * 10 powi (x - int k)))
                  | _ \<Rightarrow> None)))"

definition int_of_float :: "pyfloat \<Rightarrow> pyerror + int" where
  \<comment> \<open>\<^verbatim>\<open>int(v)\<close> of a float: truncation; infinities and NaN raise\<close>
  "int_of_float v =
     (case v of
        Fin r \<Rightarrow> Inr (if 0 \<le> r then \<lfloor>r\<rfloor> else \<lceil>r\<rceil>)
      | PInf \<Rightarrow> Inl OverflowError
      | NInf \<Rightarrow> Inl OverflowError
      | NaN \<Rightarrow> Inl ValueError)"

section \<open>The line parser\<close>

type_synonym keypoint = "pyfloat \<times> pyfloat \<times> pyfloat option"

type_synonym detection = "int \<times> pyfloat \<times> pyfloat \<times> pyfloat \<times> pyfloat \<times> keypoint list"

fun floats_of :: "string list \<Rightarrow> pyfloat list option" where
  \<comment> \<open>\<^verbatim>\<open>[float(t) for t in toks]\<close> under the \<^verbatim>\<open>try\<close>; \<open>None\<close> when a conversion raises\<close>
  "floats_of [] = Some []"
| "floats_of (t # ts) =
     (case float_of_str t of
        None \<Rightarrow> None
      | Some v \<Rightarrow> (case floats_of ts of None \<Rightarrow> None | Some vs \<Rightarrow> Some (v # vs)))"

fun read_triplets :: "pyfloat list \<Rightarrow> keypoint list \<Rightarrow> keypoint list" where
  \<comment> \<open>the loop of lines 36-41: three \<^verbatim>\<open>next(it)\<close>, then append; \<^verbatim>\<open>StopIteration\<close> breaks\<close>
  "read_triplets (x # y # c # it) kps = read_triplets it (kps @ [(x, y, Some c)])"
| "read_triplets _ kps = kps"

fun read_pairs :: "pyfloat list \<Rightarrow> keypoint list \<Rightarrow> keypoint list" where
  \<comment> \<open>the loops of lines 44-49 and 53-58\<close>
  "read_pairs (x # y # it) kps = read_pairs it (kps @ [(x, y, None)])"
| "read_pairs _ kps = kps"

definition parse_label_line :: "string \<Rightarrow> pyerror + detection option" where
  \<comment> \<open>\<open>Inr None\<close> is the returned \<^verbatim>\<open>None\<close>, \<open>Inl e\<close> an exception that leaves the function\<close>
  "parse_label_line line =
     (let toks = split_ws (strip line) in
      if length toks < 5 then Inr None
      else
        case floats_of toks of
          None \<Rightarrow> Inr None
        | Some vals \<Rightarrow>
            (case int_of_float (vals ! 0) of
               Inl e \<Rightarrow> Inl e
             | Inr cls \<Rightarrow>
                 (let bx = vals ! 1; bY = vals ! 2; bw = vals ! 3; bh = vals ! 4;
                      rem = drop 5 vals
                  in
                  if rem = [] then Inr (Some (cls, bx, bY, bw, bh, []))
                  else if length rem mod 3 = 0
                    then Inr (Some (cls, bx, bY, bw, bh, read_triplets rem []))
                  else if length rem mod 2 = 0
                    then Inr (Some (cls, bx, bY, bw, bh, read_pairs rem []))
                  else Inr (Some (cls, bx, bY, bw, bh, read_pairs rem [])))))"

text \<open>
  The grouping rule in the specification's words: with \<open>n\<close> values after the first
  five, no keypoint when \<open>n = 0\<close>; \<open>n div 3\<close> triplets when 3 divides \<open>n\<close>; \<open>n div 2\<close> pairs
  without confidence when 2 divides \<open>n\<close>; otherwise the pairs of all values but the last.
  The \<open>i\<close>-th triplet is made of the values \<open>3 i\<close>, \<open>3 i + 1\<close>, \<open>3 i + 2\<close>, the \<open>i\<close>-th pair
  of the values \<open>2 i\<close> and \<open>2 i + 1\<close>.
\<close>

definition triplets_of :: "pyfloat list \<Rightarrow> keypoint list" where
  "triplets_of rem =
     map (\<lambda>i. (rem ! (3 * i), rem ! (3 * i + 1), Some (rem ! (3 * i + 2)))) [0..<length rem div 3]"

definition pairs_of :: "pyfloat list \<Rightarrow> keypoint list" where
  "pairs_of rem = map (\<lambda>i. (rem ! (2 * i), rem ! (2 * i + 1), None)) [0..<length rem div 2]"

definition group_keypoints :: "pyfloat list \<Rightarrow> keypoint list" where
  "group_keypoints rem =
     (if rem = [] then []
      else if length rem mod 3 = 0 then triplets_of rem
      else if length rem mod 2 = 0 then pairs_of rem
      else pairs_of (butlast rem))"

section \<open>Float arithmetic\<close>

definition float_of_int :: "int \<Rightarrow> pyfloat" where
  \<comment> \<open>the conversion of an \<^verbatim>\<open>int\<close> operand of a float operation\<close>
  "float_of_int n = Fin (of_int n)"

fun fmul :: "pyfloat \<Rightarrow> pyfloat \<Rightarrow> pyfloat" where
  "fmul NaN b = NaN"
| "fmul a NaN = NaN"
| "fmul (Fin x) (Fin y) = Fin (x * y)"
| "fmul (Fin x) PInf = (if x = 0 then NaN else if 0 < x then PInf else NInf)"
| "fmul (Fin x) NInf = (if x = 0 then NaN else if 0 < x then NInf else PInf)"
| "fmul PInf (Fin y) = (if y = 0 then NaN else if 0 < y then PInf else NInf)"
| "fmul NInf (Fin y) = (if y = 0 then NaN else if 0 < y then NInf else PInf)"
| "fmul PInf PInf = PInf"
| "fmul PInf NInf = NInf"
| "fmul NInf PInf = NInf"
| "fmul NInf NInf = PInf"

fun fsub :: "pyfloat \<Rightarrow> pyfloat \<Rightarrow> pyfloat" where
  "fsub NaN b = NaN"
| "fsub a NaN = NaN"
| "fsub (Fin x) (Fin y) = Fin (x - y)"
| "fsub (Fin x) PInf = NInf"
| "fsub (Fin x) NInf = PInf"
| "fsub PInf (Fin y) = PInf"
| "fsub NInf (Fin y) = NInf"
| "fsub PInf PInf = NaN"
| "fsub PInf NInf = PInf"
| "fsub NInf PInf = NInf"
| "fsub NInf NInf = NaN"

fun fdiv :: "pyfloat \<Rightarrow> pyfloat \<Rightarrow> pyerror + pyfloat" where
  \<comment> \<open>\<^verbatim>\<open>a / b\<close>: a zero divisor raises whatever the dividend is\<close>
  "fdiv a (Fin y) =
     (if y = 0 then Inl ZeroDivisionError
      else case a of
        Fin x \<Rightarrow> Inr (Fin (x / y))
      | PInf \<Rightarrow> Inr (if 0 < y then PInf else NInf)
      | NInf \<Rightarrow> Inr (if 0 < y then NInf else PInf)
      | NaN \<Rightarrow> Inr NaN)"
| "fdiv a NaN = Inr NaN"
| "fdiv (Fin x) b = Inr (Fin 0)"
| "fdiv a b = Inr NaN"

definition is_inf :: "pyfloat \<Rightarrow> bool" where
  "is_inf a = (a = PInf \<or> a = NInf)"

definition hypot :: "pyfloat \<Rightarrow> pyfloat \<Rightarrow> pyfloat" where
  \<comment> \<open>\<^verbatim>\<open>math.hypot\<close>: an infinite argument wins over a NaN\<close>
  "hypot a b =
     (if is_inf a \<or> is_inf b then PInf
      else case (a, b) of (Fin x, Fin y) \<Rightarrow> Fin (sqrt (x\<^sup>2 + y\<^sup>2)) | _ \<Rightarrow> NaN)"

definition truthy :: "pyfloat \<Rightarrow> bool" where
  \<comment> \<open>a float in a condition: false for zero only\<close>
  "truthy a = (a \<noteq> Fin 0)"

section \<open>Denormalisation and the frame index\<close>

definition norm_to_px :: "pyfloat \<Rightarrow> pyfloat \<Rightarrow> int \<Rightarrow> int \<Rightarrow> pyfloat \<times> pyfloat" where
  "norm_to_px x y width height = (fmul x (float_of_int width), fmul y (float_of_int height))"

definition basename :: "string \<Rightarrow> string" where
  \<comment> \<open>\<^verbatim>\<open>os.path.basename\<close>: what follows the last slash\<close>
  "basename p = rev (takeWhile (\<lambda>c. c \<noteq> CHR ''/'') (rev p))"

definition frame_re_here :: "string \<Rightarrow> string option" where
  \<comment> \<open>\<^verbatim>\<open>(\d+)\.txt$\<close> matched at the start of \<open>s\<close>: group 1. The dollar also matches
      before a newline that ends the string.\<close>
  "frame_re_here s =
     (let g = takeWhile is_decimal s; r = dropWhile is_decimal s in
      if g \<noteq> [] \<and> (r = ''.txt'' \<or> r = ''.txt'' @ [CHR 0x0A]) then Some g else None)"

fun frame_re_search :: "string \<Rightarrow> string option" where
  \<comment> \<open>\<^verbatim>\<open>FRAME_RE.search\<close>: the match at the leftmost position that has one\<close>
  "frame_re_search [] = None"
| "frame_re_search (c # cs) =
     (case frame_re_here (c # cs) of Some g \<Rightarrow> Some g | None \<Rightarrow> frame_re_search cs)"

definition int_of_str :: "string \<Rightarrow> pyerror + int" where
  \<comment> \<open>\<^verbatim>\<open>int(s)\<close> of a string, base 10\<close>
  "int_of_str s =
     (case split_sign (strip s) of
        (neg, ds) \<Rightarrow>
          if digitpart ds then Inr (if neg then - int (digits_val ds) else int (digits_val ds))
          else Inl ValueError)"

definition rsplit_dot_head :: "string \<Rightarrow> string" where
  \<comment> \<open>\<^verbatim>\<open>s.rsplit('.', 1)[0]\<close>: what precedes the last dot, or all of \<open>s\<close>\<close>
  "rsplit_dot_head s =
     (if CHR ''.'' \<in> set s then rev (tl (dropWhile (\<lambda>c. c \<noteq> CHR ''.'') (rev s))) else s)"

fun split_on :: "char \<Rightarrow> string \<Rightarrow> string \<Rightarrow> string list" where
  \<comment> \<open>\<^verbatim>\<open>s.split(sep)\<close>: \<open>cur\<close> is the part being read; empty parts are kept\<close>
  "split_on sep cur [] = [cur]"
| "split_on sep cur (c # cs) =
     (if c = sep then cur # split_on sep [] cs else split_on sep (cur @ [c]) cs)"

definition isdigit :: "string \<Rightarrow> bool" where
  "isdigit s = (s \<noteq> [] \<and> list_all isdigit_char s)"

definition extract_frame_index :: "string \<Rightarrow> pyerror + int option" where
  "extract_frame_index fname =
     (case frame_re_search (basename fname) of
        Some g \<Rightarrow> (case int_of_str g of Inl e \<Rightarrow> Inl e | Inr n \<Rightarrow> Inr (Some n))
      | None \<Rightarrow>
          (let parts = split_on (CHR ''_'') [] (rsplit_dot_head (basename fname)) in
           if parts \<noteq> [] \<and> isdigit (last parts)
           then (case int_of_str (last parts) of Inl e \<Rightarrow> Inl e | Inr n \<Rightarrow> Inr (Some n))
           else Inr None))"

section \<open>Rows\<close>

record row =
  filename :: string
  frame :: "int option"
  time_s :: "pyfloat option"
  nose_x :: "pyfloat option"
  nose_y :: "pyfloat option"
  mouth_x :: "pyfloat option"
  mouth_y :: "pyfloat option"
  d_px :: "pyfloat option"
  d_norm :: "pyfloat option"

type_synonym px = "pyfloat option \<times> pyfloat option"

definition keypoints_px :: "keypoint list \<Rightarrow> int \<Rightarrow> int \<Rightarrow> px \<times> px" where
  \<comment> \<open>lines 81-88: \<^verbatim>\<open>nose_px\<close> and \<^verbatim>\<open>mouth_px\<close>\<close>
  "keypoints_px kps width height =
     (if length kps < 2 then ((None, None), (None, None))
      else
        (case (kps ! 0, kps ! 1) of
           ((nx, ny, _), (mx, my, _)) \<Rightarrow>
             (case (norm_to_px nx ny width height, norm_to_px mx my width height) of
                ((nx_px, ny_px), (mx_px, my_px)) \<Rightarrow>
                  ((Some nx_px, Some ny_px), (Some mx_px, Some my_px)))))"

definition distances :: "px \<Rightarrow> px \<Rightarrow> int \<Rightarrow> int \<Rightarrow> pyerror + pyfloat option \<times> pyfloat option" where
  \<comment> \<open>lines 89-95: \<^verbatim>\<open>d_px\<close> and \<^verbatim>\<open>d_norm\<close>; only the first coordinates are tested, and
      subtracting with a \<^verbatim>\<open>None\<close> operand raises\<close>
  "distances nose_px mouth_px width height =
     (case (fst nose_px, fst mouth_px) of
        (Some n0, Some m0) \<Rightarrow>
          (case (snd nose_px, snd mouth_px) of
             (Some n1, Some m1) \<Rightarrow>
               (let dx = fsub n0 m0; dy = fsub n1 m1; dpx = hypot dx dy in
                case fdiv dpx (hypot (float_of_int width) (float_of_int height)) of
                  Inl e \<Rightarrow> Inl e
                | Inr dnorm \<Rightarrow> Inr (Some dpx, Some dnorm))
           | _ \<Rightarrow> Inl TypeError)
      | _ \<Rightarrow> Inr (None, None))"

definition frame_time :: "int option \<Rightarrow> pyfloat \<Rightarrow> pyerror + pyfloat option" where
  \<comment> \<open>line 97: \<^verbatim>\<open>(frame / fps) if (frame is not None and fps) else None\<close>\<close>
  "frame_time fr fps =
     (case fr of
        None \<Rightarrow> Inr None
      | Some n \<Rightarrow>
          if truthy fps
          then (case fdiv (float_of_int n) fps of Inl e \<Rightarrow> Inl e | Inr t \<Rightarrow> Inr (Some t))
          else Inr None)"

definition process_line ::
  "string \<Rightarrow> int \<Rightarrow> int \<Rightarrow> pyfloat \<Rightarrow> string \<Rightarrow> pyerror + row option" where
  \<comment> \<open>the body of the loop of lines 76-108: the row the line appends, \<open>Inr None\<close> when
      the line is passed over by \<^verbatim>\<open>continue\<close>\<close>
  "process_line filename_label width height fps line =
     (if strip line = [] then Inr None
      else
        case parse_label_line line of
          Inl e \<Rightarrow> Inl e
        | Inr None \<Rightarrow> Inr None
        | Inr (Some (cls, bx, bY, bw, bh, kps)) \<Rightarrow>
            (case keypoints_px kps width height of
               (nose_px, mouth_px) \<Rightarrow>
                 (case distances nose_px mouth_px width height of
                    Inl e \<Rightarrow> Inl e
                  | Inr (dpx, dnorm) \<Rightarrow>
                      (case extract_frame_index filename_label of
                         Inl e \<Rightarrow> Inl e
                       | Inr fr \<Rightarrow>
                           (case frame_time fr fps of
                              Inl e \<Rightarrow> Inl e
                            | Inr ts \<Rightarrow>
                                Inr (Some \<lparr>filename = filename_label, frame = fr, time_s = ts,
                                  nose_x = fst nose_px, nose_y = snd nose_px,
                                  mouth_x = fst mouth_px, mouth_y = snd mouth_px,
                                  d_px = dpx, d_norm = dnorm\<rparr>))))))"

definition is_linebreak :: "char \<Rightarrow> bool" where
  \<comment> \<open>the line boundaries of \<^verbatim>\<open>str.splitlines\<close>: LF, VT, FF, CR, FS, GS, RS, NEL\<close>
  "is_linebreak c = ((of_char c :: nat) \<in> {10, 11, 12, 13, 28, 29, 30, 133})"

fun splitlines_from :: "string \<Rightarrow> string \<Rightarrow> string list" where
  \<comment> \<open>\<^verbatim>\<open>str.splitlines()\<close>: \<open>cur\<close> is the line being read; CR LF is one boundary\<close>
  "splitlines_from cur [] = (if cur = [] then [] else [cur])"
| "splitlines_from cur [c] = (if is_linebreak c then [cur] else [cur @ [c]])"
| "splitlines_from cur (c # d # cs) =
     (if c = CHR 0x0D \<and> d = CHR 0x0A then cur # splitlines_from [] cs
      else if is_linebreak c then cur # splitlines_from [] (d # cs)
      else splitlines_from (cur @ [c]) (d # cs))"

definition splitlines :: "string \<Rightarrow> string list" where
  "splitlines s = splitlines_from [] s"

fun process_lines ::
  "string \<Rightarrow> int \<Rightarrow> int \<Rightarrow> pyfloat \<Rightarrow> string list \<Rightarrow> row list \<Rightarrow> pyerror + row list" where
  \<comment> \<open>the loop of lines 76-108 over the lines still to read; \<open>rows\<close> is the list built so far\<close>
  "process_lines filename_label width height fps [] rows = Inr rows"
| "process_lines filename_label width height fps (line # text) rows =
     (case process_line filename_label width height fps line of
        Inl e \<Rightarrow> Inl e
      | Inr None \<Rightarrow> process_lines filename_label width height fps text rows
      | Inr (Some r) \<Rightarrow> process_lines filename_label width height fps text (rows @ [r]))"

type_synonym handle = "pyerror + string"

definition process_txt_handle ::
  "string \<Rightarrow> handle \<Rightarrow> int \<Rightarrow> int \<Rightarrow> pyfloat \<Rightarrow> pyerror + row list" where
  \<comment> \<open>an open text file is what its \<^verbatim>\<open>read()\<close> gives: the decoded text, or the exception\<close>
  "process_txt_handle filename_label fh width height fps =
     (case fh of
        Inl e \<Rightarrow> Inl e
      | Inr s \<Rightarrow> process_lines filename_label width height fps (splitlines (strip s)) [])"

section \<open>Sources\<close>

text \<open>
  A directory is what \<^verbatim>\<open>os.listdir\<close> returns, each name with what opening and reading
  that entry gives. An archive is what \<^verbatim>\<open>getmembers\<close> returns. Looking either up by its
  path can fail, as \<^verbatim>\<open>os.listdir\<close> and \<^verbatim>\<open>tarfile.open\<close> can.
\<close>

type_synonym directory = "(string \<times> handle) list"

record member =
  name :: string
  isfile :: bool
  extractfile :: "handle option"

record world =
  listdir :: "string \<Rightarrow> pyerror + directory"
  tarfile_open :: "string \<Rightarrow> pyerror + member list"
  writable :: "string \<Rightarrow> bool"
  files :: "string \<Rightarrow> string option"

fun process_dir_files ::
  "directory \<Rightarrow> int \<Rightarrow> int \<Rightarrow> pyfloat \<Rightarrow> string list \<Rightarrow> row list \<Rightarrow> row list" where
  \<comment> \<open>the loop of lines 114-121: whatever opening, reading or processing raises is caught\<close>
  "process_dir_files d width height fps [] out = out"
| "process_dir_files d width height fps (fn # fns) out =
     (case map_of d fn of
        None \<Rightarrow> process_dir_files d width height fps fns out
      | Some fh \<Rightarrow>
          (case process_txt_handle fn fh width height fps of
             Inl e \<Rightarrow> process_dir_files d width height fps fns out
           | Inr rows \<Rightarrow> process_dir_files d width height fps fns (out @ rows)))"

definition process_dir ::
  "world \<Rightarrow> string \<Rightarrow> int \<Rightarrow> int \<Rightarrow> pyfloat \<Rightarrow> pyerror + row list" where
  "process_dir w labels_dir width height fps =
     (case listdir w labels_dir of
        Inl e \<Rightarrow> Inl e
      | Inr d \<Rightarrow>
          (let fs = sort (filter (\<lambda>f. endswith (lower f) ''.txt'') (map fst d)) in
           Inr (process_dir_files d width height fps fs [])))"

fun process_archive_members ::
  "int \<Rightarrow> int \<Rightarrow> pyfloat \<Rightarrow> member list \<Rightarrow> row list \<Rightarrow> pyerror + row list" where
  \<comment> \<open>the loop of lines 128-132: nothing is caught\<close>
  "process_archive_members width height fps [] out = Inr out"
| "process_archive_members width height fps (m # ms) out =
     (case extractfile m of
        None \<Rightarrow> process_archive_members width height fps ms out
      | Some txt \<Rightarrow>
          (case process_txt_handle (name m) txt width height fps of
             Inl e \<Rightarrow> Inl e
           | Inr rows \<Rightarrow> process_archive_members width height fps ms (out @ rows)))"

definition process_archive ::
  "world \<Rightarrow> string \<Rightarrow> int \<Rightarrow> int \<Rightarrow> pyfloat \<Rightarrow> pyerror + row list" where
  "process_archive w archive_path width height fps =
     (case tarfile_open w archive_path of
        Inl e \<Rightarrow> Inl e
      | Inr tar \<Rightarrow>
          (let members = filter (\<lambda>m. isfile m \<and> endswith (lower (name m)) ''.txt'') tar in
           process_archive_members width height fps (sort_key name members) []))"

section \<open>The CSV writer\<close>

text \<open>
  \<^verbatim>\<open>csv.DictWriter\<close> with the default dialect: a field is quoted when it holds a comma, a
  double quote, a carriage return or a line feed, its double quotes are doubled, and a
  record ends with CR LF. A cell that is \<^verbatim>\<open>None\<close> is written as the empty string, an
  \<^verbatim>\<open>int\<close> in decimal, a \<^verbatim>\<open>float\<close> by its \<^verbatim>\<open>repr\<close>, which is a parameter here.
\<close>

function str_of_nat :: "nat \<Rightarrow> string" where
  "str_of_nat n =
     (if n < 10 then [char_of (48 + n)] else str_of_nat (n div 10) @ [char_of (48 + n mod 10)])"
  by pat_completeness auto
termination
  by (relation "measure (\<lambda>n. n)") auto

definition str_of_int :: "int \<Rightarrow> string" where
  "str_of_int i = (if i < 0 then CHR ''-'' # str_of_nat (nat (- i)) else str_of_nat (nat i))"

definition needs_quotes :: "char \<Rightarrow> bool" where
  "needs_quotes c = (c = CHR '','' \<or> c = CHR 0x22 \<or> c = CHR 0x0D \<or> c = CHR 0x0A)"

definition csv_field :: "string \<Rightarrow> string" where
  "csv_field s =
     (if list_ex needs_quotes s
      then [CHR 0x22] @ concat (map (\<lambda>c. if c = CHR 0x22 then [c, c] else [c]) s) @ [CHR 0x22]
      else s)"

fun join_fields :: "string list \<Rightarrow> string" where
  "join_fields [] = []"
| "join_fields [f] = f"
| "join_fields (f # g # fs) = f @ CHR '','' # join_fields (g # fs)"

definition csv_record :: "string list \<Rightarrow> string" where
  \<comment> \<open>\<^verbatim>\<open>writer.writerow\<close>; a record of one empty field is written as two double quotes\<close>
  "csv_record fs =
     (if fs = [[]] then [CHR 0x22, CHR 0x22] else join_fields (map csv_field fs))
     @ [CHR 0x0D, CHR 0x0A]"

definition keys :: "string list" where
  "keys = [''filename'', ''frame'', ''time_s'', ''nose_x'', ''nose_y'', ''mouth_x'', ''mouth_y'',
           ''d_px'', ''d_norm'']"

definition cell_int :: "int option \<Rightarrow> string" where
  "cell_int v = (case v of None \<Rightarrow> [] | Some i \<Rightarrow> str_of_int i)"

definition cell_float :: "(pyfloat \<Rightarrow> string) \<Rightarrow> pyfloat option \<Rightarrow> string" where
  "cell_float repr v = (case v of None \<Rightarrow> [] | Some x \<Rightarrow> repr x)"

definition row_cells :: "(pyfloat \<Rightarrow> string) \<Rightarrow> row \<Rightarrow> string list" where
  \<comment> \<open>\<^verbatim>\<open>{k: r.get(k, "") for k in keys}\<close> as the writer converts it, in the order of \<open>keys\<close>\<close>
  "row_cells repr r =
     [filename r, cell_int (frame r), cell_float repr (time_s r),
      cell_float repr (nose_x r), cell_float repr (nose_y r),
      cell_float repr (mouth_x r), cell_float repr (mouth_y r),
      cell_float repr (d_px r), cell_float repr (d_norm r)]"

fun write_rows :: "(pyfloat \<Rightarrow> string) \<Rightarrow> row list \<Rightarrow> string \<Rightarrow> string" where
  \<comment> \<open>the loop of lines 140-141; \<open>fh\<close> is the text written so far\<close>
  "write_rows repr [] fh = fh"
| "write_rows repr (r # rows) fh = write_rows repr rows (fh @ csv_record (row_cells repr r))"

definition write_csv ::
  "(pyfloat \<Rightarrow> string) \<Rightarrow> world \<Rightarrow> row list \<Rightarrow> string \<Rightarrow> (pyerror + unit) \<times> world" where
  \<comment> \<open>the file appears in the world when the \<^verbatim>\<open>with\<close> block is left\<close>
  "write_csv repr w rows out_csv =
     (if writable w out_csv
      then (Inr (), w\<lparr>files := (files w)(out_csv \<mapsto> write_rows repr rows (csv_record keys))\<rparr>)
      else (Inl OSError, w))"

section \<open>The entry point\<close>

fun process_archives ::
  "world \<Rightarrow> int \<Rightarrow> int \<Rightarrow> pyfloat \<Rightarrow> string list \<Rightarrow> row list \<Rightarrow> pyerror + row list" where
  \<comment> \<open>the loop of lines 160-162\<close>
  "process_archives w width height fps [] rows = Inr rows"
| "process_archives w width height fps (a # as) rows =
     (case process_archive w a width height fps of
        Inl e \<Rightarrow> Inl e
      | Inr rs \<Rightarrow> process_archives w width height fps as (rows @ rs))"

text \<open>
  The parsed command line. Plotting comes after the CSV is written and sits in a
  \<^verbatim>\<open>try\<close> of its own; it and the console messages are left out.
\<close>

record args =
  labels_dir :: "string option"
  archive :: "string list option"
  out :: string
  width :: int
  height :: int
  fps :: pyfloat

definition main_rows :: "world \<Rightarrow> args \<Rightarrow> pyerror + row list" where
  \<comment> \<open>lines 155-162: an option that is \<^verbatim>\<open>None\<close> or empty is skipped\<close>
  "main_rows w a =
     (case (case labels_dir a of
              None \<Rightarrow> Inr []
            | Some d \<Rightarrow> if d = [] then Inr [] else process_dir w d (width a) (height a) (fps a)) of
        Inl e \<Rightarrow> Inl e
      | Inr rows \<Rightarrow>
          (case archive a of
             None \<Rightarrow> Inr rows
           | Some as \<Rightarrow> process_archives w (width a) (height a) (fps a) as rows))"

definition main :: "(pyfloat \<Rightarrow> string) \<Rightarrow> world \<Rightarrow> args \<Rightarrow> (pyerror + unit) \<times> world" where
  "main repr w a =
     (case main_rows w a of
        Inl e \<Rightarrow> (Inl e, w)
      | Inr rows \<Rightarrow> write_csv repr w rows (out a))"

section \<open>The output sequence, declaratively\<close>

text \<open>
  What the specification says of the order of the rows, written without loops: the rows
  of a text are the rows of its lines, in line order; the rows of a directory are those
  of its files, in the sorted order of their names, a file that fails contributing
  nothing; the rows of an archive are those of its members, in the sorted order of their
  names; the rows of a run are those of the directory followed by those of the archives
  in argument order.
\<close>

definition line_row :: "string \<Rightarrow> int \<Rightarrow> int \<Rightarrow> pyfloat \<Rightarrow> string \<Rightarrow> row option" where
  "line_row fn w h f line = (case process_line fn w h f line of Inr (Some r) \<Rightarrow> Some r | _ \<Rightarrow> None)"

definition text_rows :: "string \<Rightarrow> int \<Rightarrow> int \<Rightarrow> pyfloat \<Rightarrow> string list \<Rightarrow> row list" where
  "text_rows fn w h f ls = List.map_filter (line_row fn w h f) ls"

definition dir_file_rows :: "directory \<Rightarrow> int \<Rightarrow> int \<Rightarrow> pyfloat \<Rightarrow> string \<Rightarrow> row list" where
  "dir_file_rows d w h f fn =
     (case map_of d fn of
        None \<Rightarrow> []
      | Some fh \<Rightarrow> (case process_txt_handle fn fh w h f of Inl e \<Rightarrow> [] | Inr rows \<Rightarrow> rows))"

definition member_rows :: "int \<Rightarrow> int \<Rightarrow> pyfloat \<Rightarrow> member \<Rightarrow> row list" where
  "member_rows w h f m =
     (case extractfile m of
        None \<Rightarrow> []
      | Some txt \<Rightarrow> (case process_txt_handle (name m) txt w h f of Inl e \<Rightarrow> [] | Inr rows \<Rightarrow> rows))"

definition archive_rows :: "world \<Rightarrow> int \<Rightarrow> int \<Rightarrow> pyfloat \<Rightarrow> string \<Rightarrow> row list" where
  "archive_rows wd w h f p = (case process_archive wd p w h f of Inl e \<Rightarrow> [] | Inr rows \<Rightarrow> rows)"

section \<open>A small run\<close>

text \<open>
  One directory and two archives, on which the theorems below are exercised. The
  directory holds a label file of two lines, a file that does not decode and a file that
  is no label file; the first archive holds two label files, listed out of order; the
  second holds a member that does not decode before one that does.
\<close>

definition demo_text :: string where
  "demo_text =
     ''0 0.5 0.5 0.2 0.2 0.5 0.5 0.5 0.6'' @ [CHR 0x0A] @ ''1 0.5 0.5 0.2 0.2'' @ [CHR 0x0A]"

definition demo_world :: world where
  "demo_world =
     \<lparr>listdir = (\<lambda>p.
        if p = ''labels''
        then Inr [(''clip_7.txt'', Inr demo_text), (''bad_3.txt'', Inl UnicodeDecodeError),
                  (''notes.md'', Inr ''x'')]
        else Inl OSError),
      tarfile_open = (\<lambda>p.
        if p = ''chunk.tar.gz''
        then Inr [\<lparr>name = ''b_2.txt'', isfile = True,
                    extractfile = Some (Inr ''0 0.5 0.5 0.2 0.2 0.5 0.5 0.5 0.6'')\<rparr>,
                  \<lparr>name = ''a_1.txt'', isfile = True,
                    extractfile = Some (Inr ''1 0.5 0.5 0.2 0.2'')\<rparr>]
        else if p = ''mixed.tar.gz''
        then Inr [\<lparr>name = ''a_1.txt'', isfile = True,
                    extractfile = Some (Inl UnicodeDecodeError)\<rparr>,
                  \<lparr>name = ''b_2.txt'', isfile = True,
                    extractfile = Some (Inr ''1 0.5 0.5 0.2 0.2'')\<rparr>]
        else Inl OSError),
      writable = (\<lambda>p. True),
      files = (\<lambda>p. None)\<rparr>"

definition demo_args :: args where
  "demo_args =
     \<lparr>labels_dir = Some ''labels'', archive = Some [''chunk.tar.gz''], out = ''dists.csv'',
      width = 1080, height = 1920, fps = Fin 30\<rparr>"

definition full_row :: "string \<Rightarrow> int \<Rightarrow> row" where
  \<comment> \<open>the row of the first line of \<open>demo_text\<close> in a file of the given name and frame\<close>
  "full_row fn n =
     \<lparr>filename = fn, frame = Some n, time_s = Some (Fin (real_of_int n / 30)),
      nose_x = Some (Fin 540), nose_y = Some (Fin 960),
      mouth_x = Some (Fin 540), mouth_y = Some (Fin 1152),
      d_px = Some (Fin 192), d_norm = Some (Fin (192 / sqrt (1080\<^sup>2 + 1920\<^sup>2)))\<rparr>"

definition empty_row :: "string \<Rightarrow> int \<Rightarrow> row" where
  \<comment> \<open>the row of its second line\<close>
  "empty_row fn n =
     \<lparr>filename = fn, frame = Some n, time_s = Some (Fin (real_of_int n / 30)),
      nose_x = None, nose_y = None, mouth_x = None, mouth_y = None,
      d_px = None, d_norm = None\<rparr>"

section \<open>Reading a CSV back\<close>








section \<open>Evaluation\<close>

lemmas char_defs = isspace_def is_decimal_def isdigit_char_def digit_val_def lower_char_def
  is_linebreak_def

lemmas str_defs = lower_def endswith_def strip_def split_ws_def splitlines_def basename_def
  rsplit_dot_head_def isdigit_def

lemmas float_defs = digits_val_def split_sign_def split_first_def parse_number_def
  parse_exponent_def float_of_str_def int_of_float_def int_of_str_def

section \<open>The grouping of keypoints\<close>

lemma triplets_of_Cons3: "triplets_of (x # y # c # it) = (x, y, Some c) # triplets_of it"
  by (simp add: triplets_of_def map_upt_Suc del: upt_Suc)

lemma triplets_of_short: "length xs < 3 \<Longrightarrow> triplets_of xs = []"
  by (simp add: triplets_of_def)

lemma read_triplets_eq: "read_triplets xs kps = kps @ triplets_of xs"
proof (induction xs kps rule: read_triplets.induct)
  case (1 x y c it kps)
  then show ?case by (simp add: triplets_of_Cons3)
qed (simp_all add: triplets_of_short)

lemma pairs_of_Cons2: "pairs_of (x # y # it) = (x, y, None) # pairs_of it"
  by (simp add: pairs_of_def map_upt_Suc del: upt_Suc)

lemma pairs_of_short: "length xs < 2 \<Longrightarrow> pairs_of xs = []"
  by (simp add: pairs_of_def)

lemma read_pairs_eq: "read_pairs xs kps = kps @ pairs_of xs"
proof (induction xs kps rule: read_pairs.induct)
  case (1 x y it kps)
  then show ?case by (simp add: pairs_of_Cons2)
qed (simp_all add: pairs_of_short)

lemma pairs_of_butlast: "odd (length xs) \<Longrightarrow> pairs_of (butlast xs) = pairs_of xs"
proof -
  assume "odd (length xs)"
  then obtain k where k: "length xs = 2 * k + 1"
    by (auto elim: oddE)
  have len: "length (butlast xs) div 2 = length xs div 2"
    by (simp add: k)
  show ?thesis
    unfolding pairs_of_def len
    by (rule map_cong [OF refl]) (simp add: nth_butlast k)
qed

lemma grouping_loops:
  "(if rem = [] then []
    else if length rem mod 3 = 0 then read_triplets rem []
    else if length rem mod 2 = 0 then read_pairs rem []
    else read_pairs rem []) = group_keypoints rem"
proof (cases "even (length rem)")
  case True
  then show ?thesis
    by (simp add: group_keypoints_def read_triplets_eq read_pairs_eq even_iff_mod_2_eq_zero)
next
  case False
  then have "length rem mod 2 \<noteq> 0"
    by (simp add: even_iff_mod_2_eq_zero)
  with False show ?thesis
    by (simp add: group_keypoints_def read_triplets_eq read_pairs_eq pairs_of_butlast)
qed

lemma parse_label_line_Some:
  assumes "5 \<le> length (split_ws (strip line))"
    and "floats_of (split_ws (strip line)) = Some vals"
    and "int_of_float (vals ! 0) = Inr cls"
  shows "parse_label_line line =
           Inr (Some (cls, vals ! 1, vals ! 2, vals ! 3, vals ! 4, group_keypoints (drop 5 vals)))"
proof -
  have "parse_label_line line =
          Inr (Some (cls, vals ! 1, vals ! 2, vals ! 3, vals ! 4,
            (if drop 5 vals = [] then []
             else if length (drop 5 vals) mod 3 = 0 then read_triplets (drop 5 vals) []
             else if length (drop 5 vals) mod 2 = 0 then read_pairs (drop 5 vals) []
             else read_pairs (drop 5 vals) [])))"
    using assms by (simp add: parse_label_line_def Let_def)
  then show ?thesis
    by (simp only: grouping_loops)
qed

lemma floats_of_length: "floats_of ts = Some vs \<Longrightarrow> length vs = length ts"
  by (induction ts arbitrary: vs) (auto split: option.splits)

lemma length_group_keypoints:
  "length (group_keypoints rem) =
     (if length rem mod 3 = 0 then length rem div 3 else length rem div 2)"
proof -
  have "odd (length rem) \<Longrightarrow> (length rem - 1) div 2 = length rem div 2"
    by (auto elim!: oddE)
  then show ?thesis
    by (auto simp: group_keypoints_def triplets_of_def pairs_of_def even_iff_mod_2_eq_zero)
qed

lemma conf_group_keypoints:
  "kp \<in> set (group_keypoints rem) \<Longrightarrow> (snd (snd kp) \<noteq> None) = (length rem mod 3 = 0)"
  by (auto simp: group_keypoints_def triplets_of_def pairs_of_def split: if_splits)

text \<open>
  C1. A line whose tokens (split at white space) are at least five and all convert to
  floats, and whose class id converts to an integer, parses to a detection record whose
  keypoints are the values after the first five grouped by the rule in priority order:
  none when nothing remains; else triplets with their confidence when the number of
  remaining values is a multiple of 3; else pairs without confidence when it is even;
  else the pairs of all but the last value. The number of keypoints is a third of the
  remaining count in the first two cases and half of it, rounded down, in the others.
\<close>

theorem parse_label_line_grouping:
  assumes "toks = split_ws (strip line)"
    and "5 \<le> length toks"
    and "floats_of toks = Some vals"
    and "int_of_float (vals ! 0) = Inr cls"
  shows "parse_label_line line =
           Inr (Some (cls, vals ! 1, vals ! 2, vals ! 3, vals ! 4, group_keypoints (drop 5 vals)))
         \<and> length (group_keypoints (drop 5 vals)) =
             (if (length toks - 5) mod 3 = 0 then (length toks - 5) div 3
              else (length toks - 5) div 2)
         \<and> (\<forall>kp \<in> set (group_keypoints (drop 5 vals)).
              (snd (snd kp) \<noteq> None) = ((length toks - 5) mod 3 = 0))"
proof -
  have len: "length (drop 5 vals) = length toks - 5"
    using assms(3) by (simp add: floats_of_length)
  have "parse_label_line line =
           Inr (Some (cls, vals ! 1, vals ! 2, vals ! 3, vals ! 4, group_keypoints (drop 5 vals)))"
    using assms by (simp add: parse_label_line_Some)
  moreover have "length (group_keypoints (drop 5 vals)) =
             (if (length toks - 5) mod 3 = 0 then (length toks - 5) div 3
              else (length toks - 5) div 2)"
    by (simp only: length_group_keypoints len)
  moreover have "\<forall>kp \<in> set (group_keypoints (drop 5 vals)).
              (snd (snd kp) \<noteq> None) = ((length toks - 5) mod 3 = 0)"
  proof
    fix kp
    assume "kp \<in> set (group_keypoints (drop 5 vals))"
    from conf_group_keypoints [OF this]
    show "(snd (snd kp) \<noteq> None) = ((length toks - 5) mod 3 = 0)"
      by (simp only: len)
  qed
  ultimately show ?thesis by blast
qed

lemma ev_toks: "split_ws (strip ''0 0.5 0.5 0.2 0.2 0.1 0.2 0.3 0.4 0.5 0.6 0.7'') =
   [''0'', ''0.5'', ''0.5'', ''0.2'', ''0.2'', ''0.1'', ''0.2'', ''0.3'', ''0.4'', ''0.5'', ''0.6'', ''0.7'']"
  by (simp add: char_defs str_defs)

lemma ev_floats: "floats_of [''0'', ''0.5'', ''0.5'', ''0.2'', ''0.2'', ''0.1'', ''0.2'', ''0.3'', ''0.4'', ''0.5'', ''0.6'', ''0.7'']
  = Some [Fin 0, Fin (1/2), Fin (1/2), Fin (1/5), Fin (1/5), Fin (1/10), Fin (1/5), Fin (3/10), Fin (2/5), Fin (1/2), Fin (3/5), Fin (7/10)]"
  by (simp add: char_defs str_defs float_defs)


theorem parse_label_line_grouping_witness:
  "parse_label_line ''0 0.5 0.5 0.2 0.2 0.1 0.2 0.3 0.4 0.5 0.6 0.7'' =
     Inr (Some (0, Fin (1/2), Fin (1/2), Fin (1/5), Fin (1/5),
       [(Fin (1/10), Fin (1/5), None), (Fin (3/10), Fin (2/5), None), (Fin (1/2), Fin (3/5), None)]))"
proof -
  have i: "int_of_float ([Fin 0, Fin (1/2), Fin (1/2), Fin (1/5), Fin (1/5), Fin (1/10), Fin (1/5), Fin (3/10), Fin (2/5), Fin (1/2), Fin (3/5), Fin (7/10)] ! 0) = Inr 0"
    by (simp add: int_of_float_def)
  show ?thesis
    using parse_label_line_grouping [OF ev_toks [symmetric] _ ev_floats i]
    by (simp add: group_keypoints_def pairs_of_def upt_rec [of 0] upt_rec [of 1] upt_rec [of 2])
qed

section \<open>Rows of a line\<close>





section \<open>The loops as concatenations\<close>

lemma process_lines_eq:
  "process_lines fn w h f ls acc = Inr rows \<Longrightarrow> rows = acc @ text_rows fn w h f ls"
proof (induction ls arbitrary: acc)
  case Nil
  then show ?case by (simp add: text_rows_def List.map_filter_simps)
next
  case (Cons l ls)
  show ?case
  proof (cases "process_line fn w h f l")
    case (Inl e)
    with Cons.prems show ?thesis by simp
  next
    case (Inr v)
    show ?thesis
    proof (cases v)
      case None
      with Inr Cons.prems have "process_lines fn w h f ls acc = Inr rows" by simp
      from Cons.IH [OF this] Inr None show ?thesis
        by (simp add: text_rows_def List.map_filter_simps line_row_def)
    next
      case (Some r)
      with Inr Cons.prems have "process_lines fn w h f ls (acc @ [r]) = Inr rows" by simp
      from Cons.IH [OF this] Inr Some show ?thesis
        by (simp add: text_rows_def List.map_filter_simps line_row_def)
    qed
  qed
qed

lemma text_rows_line:
  "r \<in> set (text_rows fn w h f ls) \<Longrightarrow> \<exists>line \<in> set ls. process_line fn w h f line = Inr (Some r)"
  by (induction ls)
    (auto simp: text_rows_def List.map_filter_simps line_row_def split: sum.splits option.splits)

lemma process_txt_handle_eq:
  "process_txt_handle fn fh w h f = Inr rows \<Longrightarrow>
     \<exists>s. fh = Inr s \<and> rows = text_rows fn w h f (splitlines (strip s))"
  by (cases fh) (auto simp: process_txt_handle_def dest: process_lines_eq)

lemma process_dir_files_eq:
  "process_dir_files d w h f fns acc = acc @ concat (map (dir_file_rows d w h f) fns)"
  by (induction fns arbitrary: acc)
    (simp_all add: dir_file_rows_def split: option.splits sum.splits)

lemma process_archive_members_eq:
  "process_archive_members w h f ms acc = Inr rows \<Longrightarrow>
     rows = acc @ concat (map (member_rows w h f) ms)"
proof (induction ms arbitrary: acc)
  case Nil
  then show ?case by simp
next
  case (Cons m ms)
  show ?case
  proof (cases "extractfile m")
    case None
    with Cons.prems have "process_archive_members w h f ms acc = Inr rows" by simp
    from Cons.IH [OF this] None show ?thesis
      by (simp add: member_rows_def)
  next
    case (Some t)
    show ?thesis
    proof (cases "process_txt_handle (name m) t w h f")
      case (Inl e)
      with Some Cons.prems show ?thesis by simp
    next
      case (Inr rs)
      with Some Cons.prems have "process_archive_members w h f ms (acc @ rs) = Inr rows" by simp
      from Cons.IH [OF this] Some Inr show ?thesis
        by (simp add: member_rows_def)
    qed
  qed
qed

lemma process_archives_eq:
  "process_archives wd w h f as acc = Inr rows \<Longrightarrow>
     rows = acc @ concat (map (archive_rows wd w h f) as)
     \<and> (\<forall>p \<in> set as. process_archive wd p w h f = Inr (archive_rows wd w h f p))"
proof (induction as arbitrary: acc)
  case Nil
  then show ?case by simp
next
  case (Cons p as)
  show ?case
  proof (cases "process_archive wd p w h f")
    case (Inl e)
    with Cons.prems show ?thesis by simp
  next
    case (Inr rs)
    with Cons.prems have "process_archives wd w h f as (acc @ rs) = Inr rows" by simp
    from Cons.IH [OF this] Inr show ?thesis
      by (simp add: archive_rows_def)
  qed
qed


section \<open>Where a row comes from\<close>

lemma process_txt_handle_line:
  "process_txt_handle fn fh w h f = Inr rows \<Longrightarrow> r \<in> set rows \<Longrightarrow>
     \<exists>line. process_line fn w h f line = Inr (Some r)"
  using process_txt_handle_eq [of fn fh w h f rows] text_rows_line [of r fn w h f]
  by blast

lemma dir_file_rows_line:
  "r \<in> set (dir_file_rows d w h f fn) \<Longrightarrow> \<exists>line. process_line fn w h f line = Inr (Some r)"
proof -
  assume r: "r \<in> set (dir_file_rows d w h f fn)"
  then obtain fh where fh: "map_of d fn = Some fh"
    by (cases "map_of d fn") (simp_all add: dir_file_rows_def)
  with r obtain rows where "process_txt_handle fn fh w h f = Inr rows" and "r \<in> set rows"
    by (cases "process_txt_handle fn fh w h f") (simp_all add: dir_file_rows_def)
  then show ?thesis
    by (rule process_txt_handle_line)
qed

lemma member_rows_line:
  "r \<in> set (member_rows w h f m) \<Longrightarrow> \<exists>line. process_line (name m) w h f line = Inr (Some r)"
proof -
  assume r: "r \<in> set (member_rows w h f m)"
  then obtain fh where fh: "extractfile m = Some fh"
    by (cases "extractfile m") (simp_all add: member_rows_def)
  with r obtain rows where "process_txt_handle (name m) fh w h f = Inr rows" and "r \<in> set rows"
    by (cases "process_txt_handle (name m) fh w h f") (simp_all add: member_rows_def)
  then show ?thesis
    by (rule process_txt_handle_line)
qed




lemma main_rows_eq:
  assumes "main_rows wd a = Inr rows"
  shows "\<exists>D. rows = D @ concat (map (archive_rows wd (width a) (height a) (fps a))
                                    (case archive a of None \<Rightarrow> [] | Some as \<Rightarrow> as))
           \<and> (case labels_dir a of
                None \<Rightarrow> D = []
              | Some d \<Rightarrow> if d = [] then D = []
                          else process_dir wd d (width a) (height a) (fps a) = Inr D)
           \<and> (\<forall>p \<in> set (case archive a of None \<Rightarrow> [] | Some as \<Rightarrow> as).
                 process_archive wd p (width a) (height a) (fps a)
                 = Inr (archive_rows wd (width a) (height a) (fps a) p))"
proof -
  from assms obtain D where
    D: "(case labels_dir a of
           None \<Rightarrow> Inr []
         | Some d \<Rightarrow> if d = [] then Inr [] else process_dir wd d (width a) (height a) (fps a))
        = Inr D"
    and R: "(case archive a of
               None \<Rightarrow> Inr D
             | Some as \<Rightarrow> process_archives wd (width a) (height a) (fps a) as D) = Inr rows"
    by (auto simp: main_rows_def split: sum.splits)
  from D have 1: "case labels_dir a of
                None \<Rightarrow> D = []
              | Some d \<Rightarrow> if d = [] then D = []
                          else process_dir wd d (width a) (height a) (fps a) = Inr D"
    by (auto split: option.splits if_splits)
  show ?thesis
  proof (cases "archive a")
    case None
    with R have "rows = D" by simp
    with 1 None show ?thesis
      by (intro exI [of _ D]) simp
  next
    case (Some as)
    with R have "process_archives wd (width a) (height a) (fps a) as D = Inr rows"
      by simp
    from process_archives_eq [OF this] Some 1 show ?thesis
      by (intro exI [of _ D]) simp
  qed
qed




section \<open>The metric\<close>


lemma parse_label_line_nonempty:
  "parse_label_line line = Inr (Some d) \<Longrightarrow> strip line \<noteq> []"
  by (auto simp: parse_label_line_def Let_def split_ws_def split: if_splits)

lemma sqrt_192: "sqrt 36864 = 192"
proof -
  have "sqrt ((192::real)\<^sup>2) = 192" by simp
  then show ?thesis by simp
qed

lemma norm_to_px_Fin:
  "norm_to_px (Fin x) (Fin y) w h = (Fin (x * real_of_int w), Fin (y * real_of_int h))"
  by (simp add: norm_to_px_def float_of_int_def)

lemma keypoints_px_example:
  assumes "2 \<le> length kps"
    and "kps ! 0 = (Fin (1/2), Fin (1/2), c0)"
    and "kps ! 1 = (Fin (1/2), Fin (3/5), c1)"
  shows "keypoints_px kps 1080 1920 =
           ((Some (Fin 540), Some (Fin 960)), (Some (Fin 540), Some (Fin 1152)))"
  using assms by (simp add: keypoints_px_def norm_to_px_Fin)

lemma distances_example:
  "distances (Some (Fin 540), Some (Fin 960)) (Some (Fin 540), Some (Fin 1152)) 1080 1920 =
     Inr (Some (Fin 192), Some (Fin (192 / sqrt (1080\<^sup>2 + 1920\<^sup>2))))"
proof -
  have "sqrt ((1080::real)\<^sup>2 + 1920\<^sup>2) \<noteq> 0"
    by (simp add: real_sqrt_eq_zero_cancel_iff)
  then show ?thesis
    by (simp add: distances_def Let_def hypot_def is_inf_def float_of_int_def sqrt_192)
qed


lemma ev_line_toks:
  "split_ws (strip ''0 0.5 0.5 0.2 0.2 0.5 0.5 0.5 0.6'') =
     [''0'', ''0.5'', ''0.5'', ''0.2'', ''0.2'', ''0.5'', ''0.5'', ''0.5'', ''0.6'']"
  by (simp add: char_defs str_defs)

lemma ev_line_floats:
  "floats_of [''0'', ''0.5'', ''0.5'', ''0.2'', ''0.2'', ''0.5'', ''0.5'', ''0.5'', ''0.6''] =
     Some [Fin 0, Fin (1/2), Fin (1/2), Fin (1/5), Fin (1/5), Fin (1/2), Fin (1/2), Fin (1/2), Fin (3/5)]"
  by (simp add: char_defs str_defs float_defs)

lemma ev_line_parse:
  "parse_label_line ''0 0.5 0.5 0.2 0.2 0.5 0.5 0.5 0.6'' =
     Inr (Some (0, Fin (1/2), Fin (1/2), Fin (1/5), Fin (1/5),
       [(Fin (1/2), Fin (1/2), None), (Fin (1/2), Fin (3/5), None)]))"
  by (simp add: parse_label_line_def ev_line_toks ev_line_floats int_of_float_def
      del: floats_of.simps)

lemma ev_frame_7: "extract_frame_index ''clip_7.txt'' = Inr (Some 7)"
  by (simp add: extract_frame_index_def frame_re_here_def char_defs str_defs float_defs)

lemma ev_line_row:
  "process_line ''clip_7.txt'' 1080 1920 (Fin 30) ''0 0.5 0.5 0.2 0.2 0.5 0.5 0.5 0.6'' =
     Inr (Some \<lparr>filename = ''clip_7.txt'', frame = Some 7, time_s = Some (Fin (7 / 30)),
       nose_x = Some (Fin 540), nose_y = Some (Fin 960),
       mouth_x = Some (Fin 540), mouth_y = Some (Fin 1152),
       d_px = Some (Fin 192),
       d_norm = Some (Fin (192 / sqrt (1080\<^sup>2 + 1920\<^sup>2)))\<rparr>)"
proof -
  have "strip ''0 0.5 0.5 0.2 0.2 0.5 0.5 0.5 0.6'' \<noteq> []"
    using ev_line_parse by (rule parse_label_line_nonempty)
  moreover have "frame_time (Some 7) (Fin 30) = Inr (Some (Fin (7 / 30)))"
    by (simp add: frame_time_def truthy_def float_of_int_def)
  moreover have "keypoints_px [(Fin (1/2), Fin (1/2), None), (Fin (1/2), Fin (3/5), None)] 1080 1920
      = ((Some (Fin 540), Some (Fin 960)), (Some (Fin 540), Some (Fin 1152)))"
    by (rule keypoints_px_example) simp_all
  ultimately show ?thesis
    using ev_line_parse ev_frame_7 distances_example
    by (simp add: process_line_def)
qed



section \<open>Confidence\<close>

lemma parse_label_line_vals:
  assumes "5 \<le> length (split_ws (strip line))"
    and "floats_of (split_ws (strip line)) = Some vals"
  shows "parse_label_line line =
           (case int_of_float (vals ! 0) of
              Inl e \<Rightarrow> Inl e
            | Inr cls \<Rightarrow>
                Inr (Some (cls, vals ! 1, vals ! 2, vals ! 3, vals ! 4,
                  group_keypoints (drop 5 vals))))"
proof (cases "int_of_float (vals ! 0)")
  case (Inl e)
  with assms show ?thesis by (simp add: parse_label_line_def)
next
  case (Inr cls)
  with parse_label_line_Some [OF assms this] show ?thesis by simp
qed

lemma split_nonempty: "5 \<le> length (split_ws (strip line)) \<Longrightarrow> strip line \<noteq> []"
  by (auto simp: split_ws_def)

lemma process_line_vals:
  assumes "5 \<le> length (split_ws (strip line))"
    and "floats_of (split_ws (strip line)) = Some vals"
  shows "process_line fn w h f line =
           (case int_of_float (vals ! 0) of
              Inl e \<Rightarrow> Inl e
            | Inr cls \<Rightarrow>
               (case keypoints_px (group_keypoints (drop 5 vals)) w h of
               (nose_px, mouth_px) \<Rightarrow>
                 (case distances nose_px mouth_px w h of
                    Inl e \<Rightarrow> Inl e
                  | Inr (dpx, dnorm) \<Rightarrow>
                      (case extract_frame_index fn of
                         Inl e \<Rightarrow> Inl e
                       | Inr fr \<Rightarrow>
                           (case frame_time fr f of
                              Inl e \<Rightarrow> Inl e
                            | Inr ts \<Rightarrow>
                                Inr (Some \<lparr>filename = fn, frame = fr, time_s = ts,
                                  nose_x = fst nose_px, nose_y = snd nose_px,
                                  mouth_x = fst mouth_px, mouth_y = snd mouth_px,
                                  d_px = dpx, d_norm = dnorm\<rparr>))))))"
  using split_nonempty [OF assms(1)]
  by (simp add: process_line_def parse_label_line_vals [OF assms] split: sum.splits)

lemma triplets_of_xy:
  "i < length rem div 3 \<Longrightarrow>
     fst (triplets_of rem ! i) = rem ! (3 * i) \<and> fst (snd (triplets_of rem ! i)) = rem ! (3 * i + 1)"
  by (simp add: triplets_of_def)

lemma keypoints_px_xy:
  "keypoints_px kps w h =
     (if length kps < 2 then ((None, None), (None, None))
      else
        ((Some (fst (norm_to_px (fst (kps ! 0)) (fst (snd (kps ! 0))) w h)),
          Some (snd (norm_to_px (fst (kps ! 0)) (fst (snd (kps ! 0))) w h))),
         (Some (fst (norm_to_px (fst (kps ! 1)) (fst (snd (kps ! 1))) w h)),
          Some (snd (norm_to_px (fst (kps ! 1)) (fst (snd (kps ! 1))) w h)))))"
  by (simp add: keypoints_px_def split: prod.splits)

lemma keypoints_px_triplets:
  assumes "length r1 = length r2" and "length r1 mod 3 = 0"
    and "\<And>j. j < length r1 \<Longrightarrow> j mod 3 \<noteq> 2 \<Longrightarrow> r1 ! j = r2 ! j"
  shows "keypoints_px (group_keypoints r1) w h = keypoints_px (group_keypoints r2) w h"
proof (cases "r1 = []")
  case True
  with assms(1) show ?thesis by simp
next
  case False
  with assms(1) have ne: "r2 \<noteq> []" by auto
  from False ne assms(1,2) have g: "group_keypoints r1 = triplets_of r1"
    "group_keypoints r2 = triplets_of r2"
    by (simp_all add: group_keypoints_def)
  have len: "length (triplets_of r1) = length r1 div 3" "length (triplets_of r2) = length r1 div 3"
    using assms(1) by (simp_all add: triplets_of_def)
  show ?thesis
  proof (cases "2 \<le> length r1 div 3")
    case False
    then show ?thesis by (simp add: g keypoints_px_xy len)
  next
    case True
    then have l6: "6 \<le> length r1" by presburger
    have "0 < length r1" "1 < length r1" "3 < length r1" "4 < length r1"
      using l6 by auto
    then have eq: "r1 ! 0 = r2 ! 0" "r1 ! 1 = r2 ! 1" "r1 ! 3 = r2 ! 3" "r1 ! 4 = r2 ! 4"
      by (simp_all add: assms(3))
    have i: "0 < length r1 div 3" "1 < length r1 div 3" "0 < length r2 div 3" "1 < length r2 div 3"
      using True assms(1) by auto
    have "fst (triplets_of r1 ! 0) = fst (triplets_of r2 ! 0)"
      "fst (snd (triplets_of r1 ! 0)) = fst (snd (triplets_of r2 ! 0))"
      "fst (triplets_of r1 ! 1) = fst (triplets_of r2 ! 1)"
      "fst (snd (triplets_of r1 ! 1)) = fst (snd (triplets_of r2 ! 1))"
      using triplets_of_xy [OF i(1)] triplets_of_xy [OF i(2)]
        triplets_of_xy [OF i(3)] triplets_of_xy [OF i(4)] eq
      by simp_all
    then show ?thesis
      by (simp add: g keypoints_px_xy len)
  qed
qed

text \<open>
  C10. Two lines with the same number of tokens, five and then a multiple of three, all
  of which convert to floats, and with equal values everywhere but at the confidence
  positions (the third of each triplet), are processed alike: the same row, the same
  skip or the same exception. The confidence of a keypoint reaches no field of a row.
\<close>

theorem confidence_irrelevant:
  assumes "toks1 = split_ws (strip line1)" and "toks2 = split_ws (strip line2)"
    and "5 \<le> length toks1" and "length toks2 = length toks1"
    and "(length toks1 - 5) mod 3 = 0"
    and "floats_of toks1 = Some vals1" and "floats_of toks2 = Some vals2"
    and "\<forall>i < length toks1. \<not> (5 \<le> i \<and> (i - 5) mod 3 = 2) \<longrightarrow> vals1 ! i = vals2 ! i"
  shows "process_line fn w h f line1 = process_line fn w h f line2"
proof -
  have l1: "length vals1 = length toks1" and l2: "length vals2 = length toks1"
    using assms(4,6,7) by (simp_all add: floats_of_length)
  have c: "vals1 ! 0 = vals2 ! 0"
  proof -
    from assms(3) have "0 < length toks1" by auto
    with assms(8) have "\<not> (5 \<le> (0::nat) \<and> (0 - 5) mod 3 = (2::nat)) \<longrightarrow> vals1 ! 0 = vals2 ! 0"
      by blast
    then show ?thesis by simp
  qed
  have k: "keypoints_px (group_keypoints (drop 5 vals1)) w h =
        keypoints_px (group_keypoints (drop 5 vals2)) w h"
  proof (rule keypoints_px_triplets)
    show "length (drop 5 vals1) = length (drop 5 vals2)"
      by (simp add: l1 l2)
    show "length (drop 5 vals1) mod 3 = 0"
      using assms(5) by (simp add: l1)
    fix j
    assume j: "j < length (drop 5 vals1)" "j mod 3 \<noteq> 2"
    then have "5 + j < length toks1" by (simp add: l1)
    with assms(8) [rule_format, of "5 + j"] j(2) have "vals1 ! (5 + j) = vals2 ! (5 + j)"
      by simp
    with assms(3) show "drop 5 vals1 ! j = drop 5 vals2 ! j"
      by (simp add: l1 l2)
  qed
  have t1: "5 \<le> length (split_ws (strip line1))" "floats_of (split_ws (strip line1)) = Some vals1"
    and t2: "5 \<le> length (split_ws (strip line2))" "floats_of (split_ws (strip line2)) = Some vals2"
    using assms(1-4,6,7) by simp_all
  show ?thesis
    by (simp only: process_line_vals [OF t1] process_line_vals [OF t2] c k)
qed


lemma ev_conf_toks1:
  "split_ws (strip ''0 0.5 0.5 0.2 0.2 0.5 0.5 0.9 0.5 0.6 0.8'') =
     [''0'', ''0.5'', ''0.5'', ''0.2'', ''0.2'', ''0.5'', ''0.5'', ''0.9'', ''0.5'', ''0.6'', ''0.8'']"
  by (simp add: char_defs str_defs)

lemma ev_conf_toks2:
  "split_ws (strip ''0 0.5 0.5 0.2 0.2 0.5 0.5 0.1 0.5 0.6 nan'') =
     [''0'', ''0.5'', ''0.5'', ''0.2'', ''0.2'', ''0.5'', ''0.5'', ''0.1'', ''0.5'', ''0.6'', ''nan'']"
  by (simp add: char_defs str_defs)

lemma ev_conf_floats1:
  "floats_of [''0'', ''0.5'', ''0.5'', ''0.2'', ''0.2'', ''0.5'', ''0.5'', ''0.9'', ''0.5'', ''0.6'', ''0.8''] =
     Some [Fin 0, Fin (1/2), Fin (1/2), Fin (1/5), Fin (1/5), Fin (1/2), Fin (1/2), Fin (9/10),
           Fin (1/2), Fin (3/5), Fin (4/5)]"
  by (simp add: char_defs str_defs float_defs)

lemma ev_conf_floats2:
  "floats_of [''0'', ''0.5'', ''0.5'', ''0.2'', ''0.2'', ''0.5'', ''0.5'', ''0.1'', ''0.5'', ''0.6'', ''nan''] =
     Some [Fin 0, Fin (1/2), Fin (1/2), Fin (1/5), Fin (1/5), Fin (1/2), Fin (1/2), Fin (1/10),
           Fin (1/2), Fin (3/5), NaN]"
  by (simp add: char_defs str_defs float_defs)

lemma all_less_11:
  "(\<forall>i<11. P (i::nat)) =
     (P 0 \<and> P 1 \<and> P 2 \<and> P 3 \<and> P 4 \<and> P 5 \<and> P 6 \<and> P 7 \<and> P 8 \<and> P 9 \<and> P 10)"
proof -
  have "(11::nat) = Suc (Suc (Suc (Suc (Suc (Suc (Suc (Suc (Suc (Suc (Suc 0))))))))))"
    by simp
  then show ?thesis
    by (simp only: All_less_Suc) (simp add: eval_nat_numeral conj_ac)
qed

theorem confidence_irrelevant_witness:
  "process_line ''clip_7.txt'' 1080 1920 (Fin 30) ''0 0.5 0.5 0.2 0.2 0.5 0.5 0.9 0.5 0.6 0.8'' =
   process_line ''clip_7.txt'' 1080 1920 (Fin 30) ''0 0.5 0.5 0.2 0.2 0.5 0.5 0.1 0.5 0.6 nan''"
proof -
  let ?toks1 = "[''0'', ''0.5'', ''0.5'', ''0.2'', ''0.2'', ''0.5'', ''0.5'', ''0.9'', ''0.5'', ''0.6'', ''0.8'']"
  let ?toks2 = "[''0'', ''0.5'', ''0.5'', ''0.2'', ''0.2'', ''0.5'', ''0.5'', ''0.1'', ''0.5'', ''0.6'', ''nan'']"
  have len: "length ?toks1 = 11" "length ?toks2 = 11"
    by simp_all
  have h3: "5 \<le> length ?toks1" and h4: "length ?toks2 = length ?toks1"
    and h5: "(length ?toks1 - 5) mod 3 = 0"
    by (simp_all only: len) simp_all
  have h8: "\<forall>i < length ?toks1. \<not> (5 \<le> i \<and> (i - 5) mod 3 = 2) \<longrightarrow>
      [Fin 0, Fin (1/2), Fin (1/2), Fin (1/5), Fin (1/5), Fin (1/2), Fin (1/2), Fin (9/10),
           Fin (1/2), Fin (3/5), Fin (4/5)] ! i =
      [Fin 0, Fin (1/2), Fin (1/2), Fin (1/5), Fin (1/5), Fin (1/2), Fin (1/2), Fin (1/10),
           Fin (1/2), Fin (3/5), NaN] ! i"
    by (simp only: len all_less_11) simp
  show ?thesis
    by (rule confidence_irrelevant [OF ev_conf_toks1 [symmetric] ev_conf_toks2 [symmetric] h3 h4 h5
        ev_conf_floats1 ev_conf_floats2 h8])
qed


section \<open>The small run, evaluated\<close>

lemma ev_short_parse:
  "parse_label_line ''1 0.5 0.5 0.2 0.2'' =
     Inr (Some (1, Fin (1/2), Fin (1/2), Fin (1/5), Fin (1/5), []))"
  by (simp add: parse_label_line_def char_defs str_defs float_defs)

lemma ev_full_row:
  assumes "extract_frame_index fn = Inr (Some n)"
  shows "process_line fn 1080 1920 (Fin 30) ''0 0.5 0.5 0.2 0.2 0.5 0.5 0.5 0.6'' =
           Inr (Some (full_row fn n))"
proof -
  have "strip ''0 0.5 0.5 0.2 0.2 0.5 0.5 0.5 0.6'' \<noteq> []"
    using ev_line_parse by (rule parse_label_line_nonempty)
  moreover have "frame_time (Some n) (Fin 30) = Inr (Some (Fin (real_of_int n / 30)))"
    by (simp add: frame_time_def truthy_def float_of_int_def)
  moreover have "keypoints_px [(Fin (1/2), Fin (1/2), None), (Fin (1/2), Fin (3/5), None)] 1080 1920
      = ((Some (Fin 540), Some (Fin 960)), (Some (Fin 540), Some (Fin 1152)))"
    by (rule keypoints_px_example) simp_all
  ultimately show ?thesis
    using ev_line_parse assms distances_example
    by (simp add: process_line_def full_row_def)
qed

lemma ev_empty_row:
  assumes "extract_frame_index fn = Inr (Some n)"
  shows "process_line fn 1080 1920 (Fin 30) ''1 0.5 0.5 0.2 0.2'' = Inr (Some (empty_row fn n))"
proof -
  have "strip ''1 0.5 0.5 0.2 0.2'' \<noteq> []"
    using ev_short_parse by (rule parse_label_line_nonempty)
  moreover have "frame_time (Some n) (Fin 30) = Inr (Some (Fin (real_of_int n / 30)))"
    by (simp add: frame_time_def truthy_def float_of_int_def)
  ultimately show ?thesis
    using ev_short_parse assms
    by (simp add: process_line_def empty_row_def keypoints_px_def distances_def)
qed

lemma ev_frame_1: "extract_frame_index ''a_1.txt'' = Inr (Some 1)"
  by (simp add: extract_frame_index_def frame_re_here_def char_defs str_defs float_defs)

lemma ev_frame_2: "extract_frame_index ''b_2.txt'' = Inr (Some 2)"
  by (simp add: extract_frame_index_def frame_re_here_def char_defs str_defs float_defs)

lemma ev_demo_lines:
  "splitlines (strip demo_text) = [''0 0.5 0.5 0.2 0.2 0.5 0.5 0.5 0.6'', ''1 0.5 0.5 0.2 0.2'']"
  by (simp add: demo_text_def char_defs str_defs)

lemma ev_demo_handle:
  "process_txt_handle ''clip_7.txt'' (Inr demo_text) 1080 1920 (Fin 30) =
     Inr [full_row ''clip_7.txt'' 7, empty_row ''clip_7.txt'' 7]"
  by (simp add: process_txt_handle_def ev_demo_lines ev_full_row [OF ev_frame_7]
      ev_empty_row [OF ev_frame_7])

lemma ev_one_line:
  "splitlines (strip ''0 0.5 0.5 0.2 0.2 0.5 0.5 0.5 0.6'') = [''0 0.5 0.5 0.2 0.2 0.5 0.5 0.5 0.6'']"
  "splitlines (strip ''1 0.5 0.5 0.2 0.2'') = [''1 0.5 0.5 0.2 0.2'']"
  by (simp_all add: char_defs str_defs)

lemma ev_member_handles:
  "process_txt_handle ''b_2.txt'' (Inr ''0 0.5 0.5 0.2 0.2 0.5 0.5 0.5 0.6'') 1080 1920 (Fin 30) =
     Inr [full_row ''b_2.txt'' 2]"
  "process_txt_handle ''a_1.txt'' (Inr ''1 0.5 0.5 0.2 0.2'') 1080 1920 (Fin 30) =
     Inr [empty_row ''a_1.txt'' 1]"
  "process_txt_handle ''b_2.txt'' (Inr ''1 0.5 0.5 0.2 0.2'') 1080 1920 (Fin 30) =
     Inr [empty_row ''b_2.txt'' 2]"
  by (simp_all add: process_txt_handle_def ev_one_line ev_full_row [OF ev_frame_2]
      ev_empty_row [OF ev_frame_1] ev_empty_row [OF ev_frame_2])

lemma ev_txt_names:
  "endswith (lower ''clip_7.txt'') ''.txt''" "endswith (lower ''bad_3.txt'') ''.txt''"
  "\<not> endswith (lower ''notes.md'') ''.txt''"
  "endswith (lower ''a_1.txt'') ''.txt''" "endswith (lower ''b_2.txt'') ''.txt''"
  by (simp_all add: char_defs str_defs)

lemma ev_name_order: "''bad_3.txt'' \<le> ''clip_7.txt''" "\<not> ''b_2.txt'' \<le> ''a_1.txt''"
  "''a_1.txt'' \<le> ''b_2.txt''"
  by code_simp+

lemma process_txt_handle_Inl: "process_txt_handle fn (Inl e) w h f = Inl e"
  by (simp add: process_txt_handle_def)

lemma ev_demo_dir:
  "process_dir demo_world ''labels'' 1080 1920 (Fin 30) =
     Inr [full_row ''clip_7.txt'' 7, empty_row ''clip_7.txt'' 7]"
  by (simp add: process_dir_def demo_world_def ev_txt_names ev_name_order ev_demo_handle
      process_txt_handle_Inl)

lemma ev_demo_chunk:
  "process_archive demo_world ''chunk.tar.gz'' 1080 1920 (Fin 30) =
     Inr [empty_row ''a_1.txt'' 1, full_row ''b_2.txt'' 2]"
  by (simp add: process_archive_def demo_world_def ev_txt_names ev_name_order ev_member_handles)

lemma ev_demo_mixed:
  "process_archive demo_world ''mixed.tar.gz'' 1080 1920 (Fin 30) = Inl UnicodeDecodeError"
  by (simp add: process_archive_def demo_world_def ev_txt_names ev_name_order
      process_txt_handle_Inl)

lemma ev_demo_rows:
  "main_rows demo_world demo_args =
     Inr [full_row ''clip_7.txt'' 7, empty_row ''clip_7.txt'' 7,
          empty_row ''a_1.txt'' 1, full_row ''b_2.txt'' 2]"
  by (simp add: main_rows_def demo_args_def ev_demo_dir ev_demo_chunk)



section \<open>Order of the rows\<close>

lemma process_line_filename: "process_line fn w h f line = Inr (Some r) \<Longrightarrow> filename r = fn"
  by (auto simp: process_line_def split: if_splits sum.splits option.splits prod.splits)

lemma dir_file_rows_filename: "r \<in> set (dir_file_rows d w h f fn) \<Longrightarrow> filename r = fn"
  using dir_file_rows_line [of r d w h f fn] process_line_filename by blast

lemma member_rows_filename: "r \<in> set (member_rows w h f m) \<Longrightarrow> filename r = name m"
  using member_rows_line [of r w h f m] process_line_filename by blast

lemma sorted_concat_keys:
  assumes "sorted (map g xs)" and "\<And>x r. r \<in> set (F x) \<Longrightarrow> k r = g x"
  shows "sorted (map k (concat (map F xs)))"
  using assms(1)
proof (induction xs)
  case Nil
  then show ?case by simp
next
  case (Cons x xs)
  have here: "map k (F x) = replicate (length (F x)) (g x)"
    by (rule nth_equalityI) (simp_all add: assms(2))
  have later: "\<forall>y \<in> set (map k (concat (map F xs))). g x \<le> y"
    using Cons.prems assms(2) by auto
  from Cons have "sorted (map k (concat (map F xs)))"
    by simp
  with here later show ?case
    by (simp add: sorted_append sorted_replicate)
qed

lemma process_dir_eq:
  assumes "process_dir wd p w h f = Inr D"
  shows "\<exists>d. listdir wd p = Inr d \<and>
           D = concat (map (dir_file_rows d w h f)
                 (sort (filter (\<lambda>f. endswith (lower f) ''.txt'') (map fst d))))"
  using assms
  by (cases "listdir wd p") (simp_all add: process_dir_def Let_def process_dir_files_eq)

lemma process_archive_eq:
  assumes "process_archive wd p w h f = Inr A"
  shows "\<exists>tar. tarfile_open wd p = Inr tar \<and>
           A = concat (map (member_rows w h f)
                 (sort_key name (filter (\<lambda>m. isfile m \<and> endswith (lower (name m)) ''.txt'') tar)))"
proof (cases "tarfile_open wd p")
  case (Inl e)
  with assms show ?thesis by (simp add: process_archive_def)
next
  case (Inr tar)
  with assms have "process_archive_members w h f
      (sort_key name (filter (\<lambda>m. isfile m \<and> endswith (lower (name m)) ''.txt'') tar)) [] = Inr A"
    by (simp add: process_archive_def Let_def)
  from process_archive_members_eq [OF this] Inr show ?thesis
    by simp
qed

lemma process_dir_sorted:
  assumes "process_dir wd p w h f = Inr D"
  shows "sorted (map filename D)"
proof -
  from process_dir_eq [OF assms] obtain d where
    D: "D = concat (map (dir_file_rows d w h f)
                 (sort (filter (\<lambda>f. endswith (lower f) ''.txt'') (map fst d))))"
    by blast
  have "sorted (map (\<lambda>x. x) (sort (filter (\<lambda>f. endswith (lower f) ''.txt'') (map fst d))))"
    by simp
  then show ?thesis
    unfolding D by (rule sorted_concat_keys) (rule dir_file_rows_filename)
qed

lemma process_archive_sorted:
  assumes "process_archive wd p w h f = Inr A"
  shows "sorted (map filename A)"
proof -
  from process_archive_eq [OF assms] obtain tar where
    A: "A = concat (map (member_rows w h f)
                 (sort_key name (filter (\<lambda>m. isfile m \<and> endswith (lower (name m)) ''.txt'') tar)))"
    by blast
  have "sorted (map name (sort_key name (filter (\<lambda>m. isfile m \<and> endswith (lower (name m)) ''.txt'') tar)))"
    by (rule sorted_sort_key)
  then show ?thesis
    unfolding A by (rule sorted_concat_keys) (rule member_rows_filename)
qed

text \<open>
  C7. The rows of a run are those of the directory, then those of each archive in the
  order of the arguments. The rows of the directory are those of its label files in the
  sorted order of their names, and so are the rows of an archive for its members; hence
  the file names down each source's rows are sorted. The rows of one file are the rows of
  its lines, in the order of the lines.
\<close>

theorem main_rows_order:
  assumes "main_rows wd a = Inr rows"
  shows "\<exists>D. rows = D @ concat (map (archive_rows wd (width a) (height a) (fps a))
                                    (case archive a of None \<Rightarrow> [] | Some as \<Rightarrow> as))
           \<and> (D = [] \<or>
               (\<exists>p d. labels_dir a = Some p \<and> listdir wd p = Inr d \<and>
                  D = concat (map (dir_file_rows d (width a) (height a) (fps a))
                        (sort (filter (\<lambda>f. endswith (lower f) ''.txt'') (map fst d))))))
           \<and> sorted (map filename D)
           \<and> (\<forall>p \<in> set (case archive a of None \<Rightarrow> [] | Some as \<Rightarrow> as).
                 \<exists>tar. tarfile_open wd p = Inr tar \<and>
                   archive_rows wd (width a) (height a) (fps a) p =
                     concat (map (member_rows (width a) (height a) (fps a))
                       (sort_key name
                         (filter (\<lambda>m. isfile m \<and> endswith (lower (name m)) ''.txt'') tar)))
                   \<and> sorted (map filename (archive_rows wd (width a) (height a) (fps a) p)))
           \<and> (\<forall>fn fh rs. process_txt_handle fn fh (width a) (height a) (fps a) = Inr rs \<longrightarrow>
                 (\<exists>s. fh = Inr s \<and>
                    rs = List.map_filter (line_row fn (width a) (height a) (fps a))
                           (splitlines (strip s))))"
proof -
  let ?as = "case archive a of None \<Rightarrow> [] | Some as \<Rightarrow> as"
  from main_rows_eq [OF assms] obtain D where
    rows: "rows = D @ concat (map (archive_rows wd (width a) (height a) (fps a)) ?as)"
    and D: "case labels_dir a of
                None \<Rightarrow> D = []
              | Some d \<Rightarrow> if d = [] then D = []
                          else process_dir wd d (width a) (height a) (fps a) = Inr D"
    and A: "\<forall>p \<in> set ?as. process_archive wd p (width a) (height a) (fps a)
                 = Inr (archive_rows wd (width a) (height a) (fps a) p)"
    by blast
  have d1: "D = [] \<or>
               (\<exists>p d. labels_dir a = Some p \<and> listdir wd p = Inr d \<and>
                  D = concat (map (dir_file_rows d (width a) (height a) (fps a))
                        (sort (filter (\<lambda>f. endswith (lower f) ''.txt'') (map fst d)))))"
    and d2: "sorted (map filename D)"
  proof -
    consider "D = []" | p where "labels_dir a = Some p"
      "process_dir wd p (width a) (height a) (fps a) = Inr D"
      using D by (cases "labels_dir a") (auto split: if_splits)
    then show "D = [] \<or>
               (\<exists>p d. labels_dir a = Some p \<and> listdir wd p = Inr d \<and>
                  D = concat (map (dir_file_rows d (width a) (height a) (fps a))
                        (sort (filter (\<lambda>f. endswith (lower f) ''.txt'') (map fst d)))))"
      and "sorted (map filename D)"
      using process_dir_eq process_dir_sorted by (cases; fastforce)+
  qed
  have a1: "\<forall>p \<in> set ?as.
                 \<exists>tar. tarfile_open wd p = Inr tar \<and>
                   archive_rows wd (width a) (height a) (fps a) p =
                     concat (map (member_rows (width a) (height a) (fps a))
                       (sort_key name
                         (filter (\<lambda>m. isfile m \<and> endswith (lower (name m)) ''.txt'') tar)))
                   \<and> sorted (map filename (archive_rows wd (width a) (height a) (fps a) p))"
  proof
    fix p
    assume "p \<in> set ?as"
    with A have "process_archive wd p (width a) (height a) (fps a)
                 = Inr (archive_rows wd (width a) (height a) (fps a) p)"
      by blast
    from process_archive_eq [OF this] process_archive_sorted [OF this]
    show "\<exists>tar. tarfile_open wd p = Inr tar \<and>
                   archive_rows wd (width a) (height a) (fps a) p =
                     concat (map (member_rows (width a) (height a) (fps a))
                       (sort_key name
                         (filter (\<lambda>m. isfile m \<and> endswith (lower (name m)) ''.txt'') tar)))
                   \<and> sorted (map filename (archive_rows wd (width a) (height a) (fps a) p))"
      by blast
  qed
  have f1: "\<forall>fn fh rs. process_txt_handle fn fh (width a) (height a) (fps a) = Inr rs \<longrightarrow>
                 (\<exists>s. fh = Inr s \<and>
                    rs = List.map_filter (line_row fn (width a) (height a) (fps a))
                           (splitlines (strip s)))"
    using process_txt_handle_eq by (simp add: text_rows_def)
  from rows d1 d2 a1 f1 show ?thesis
    by blast
qed


theorem main_rows_order_witness:
  "main_rows demo_world demo_args =
     Inr ([full_row ''clip_7.txt'' 7, empty_row ''clip_7.txt'' 7]
          @ concat [[empty_row ''a_1.txt'' 1, full_row ''b_2.txt'' 2]])
   \<and> sorted (map filename [full_row ''clip_7.txt'' 7, empty_row ''clip_7.txt'' 7])
   \<and> sorted (map filename [empty_row ''a_1.txt'' 1, full_row ''b_2.txt'' 2])"
proof -
  have ar: "archive_rows demo_world 1080 1920 (Fin 30) ''chunk.tar.gz'' =
      [empty_row ''a_1.txt'' 1, full_row ''b_2.txt'' 2]"
    by (simp add: archive_rows_def ev_demo_chunk)
  from main_rows_order [OF ev_demo_rows] obtain D where
    rows: "[full_row ''clip_7.txt'' 7, empty_row ''clip_7.txt'' 7,
          empty_row ''a_1.txt'' 1, full_row ''b_2.txt'' 2]
        = D @ concat (map (archive_rows demo_world (width demo_args) (height demo_args)
            (fps demo_args)) (case archive demo_args of None \<Rightarrow> [] | Some as \<Rightarrow> as))"
    and D: "sorted (map filename D)"
    and A: "\<forall>p \<in> set (case archive demo_args of None \<Rightarrow> [] | Some as \<Rightarrow> as).
       \<exists>tar. tarfile_open demo_world p = Inr tar \<and>
         archive_rows demo_world (width demo_args) (height demo_args) (fps demo_args) p =
           concat (map (member_rows (width demo_args) (height demo_args) (fps demo_args))
             (sort_key name (filter (\<lambda>m. isfile m \<and> endswith (lower (name m)) ''.txt'') tar)))
         \<and> sorted (map filename
             (archive_rows demo_world (width demo_args) (height demo_args) (fps demo_args) p))"
    by blast
  from rows have "[full_row ''clip_7.txt'' 7, empty_row ''clip_7.txt'' 7]
      @ [empty_row ''a_1.txt'' 1, full_row ''b_2.txt'' 2]
      = D @ [empty_row ''a_1.txt'' 1, full_row ''b_2.txt'' 2]"
    by (simp add: demo_args_def ar)
  then have "D = [full_row ''clip_7.txt'' 7, empty_row ''clip_7.txt'' 7]"
    by (simp only: append_same_eq)
  with D have "sorted (map filename [full_row ''clip_7.txt'' 7, empty_row ''clip_7.txt'' 7])"
    by simp
  moreover from A have
    "sorted (map filename (archive_rows demo_world 1080 1920 (Fin 30) ''chunk.tar.gz''))"
    by (auto simp: demo_args_def)
  then have "sorted (map filename [empty_row ''a_1.txt'' 1, full_row ''b_2.txt'' 2])"
    by (simp only: ar)
  ultimately show ?thesis
    using ev_demo_rows by simp
qed

section \<open>An archive that cannot be opened\<close>

lemma process_archives_fails:
  assumes "p \<in> set as" and "process_archive wd p w h f = Inl e"
  shows "\<exists>e'. process_archives wd w h f as acc = Inl e'"
  using assms(1)
proof (induction as arbitrary: acc)
  case Nil
  then show ?case by simp
next
  case (Cons q as)
  show ?case
  proof (cases "process_archive wd q w h f")
    case (Inl e')
    then show ?thesis by simp
  next
    case (Inr rs)
    with assms(2) have "q \<noteq> p" by auto
    with Cons.prems have "p \<in> set as" by simp
    from Cons.IH [OF this] Inr show ?thesis by simp
  qed
qed

text \<open>
  C5. When one of the archives named on the command line cannot be opened, the run ends
  with an exception and the world is as it was: no file has been written, since the one
  write comes after every source has been read.
\<close>

theorem unopenable_archive_aborts:
  assumes "archive a = Some as" and "p \<in> set as" and "tarfile_open wd p = Inl e"
  shows "\<exists>e'. main repr wd a = (Inl e', wd)"
proof -
  from assms(3) have "process_archive wd p (width a) (height a) (fps a) = Inl e"
    by (simp add: process_archive_def)
  from process_archives_fails [OF assms(2) this]
  have "\<exists>e'. main_rows wd a = Inl e'"
    using assms(1) by (auto simp: main_rows_def split: sum.splits)
  then show ?thesis
    by (auto simp: main_def)
qed

theorem unopenable_archive_aborts_witness:
  "tarfile_open demo_world ''missing.tar.gz'' = Inl OSError
   \<and> (\<exists>e'. main (\<lambda>x. []) demo_world (demo_args\<lparr>archive := Some [''chunk.tar.gz'', ''missing.tar.gz'']\<rparr>)
          = (Inl e', demo_world))"
proof -
  have o: "tarfile_open demo_world ''missing.tar.gz'' = Inl OSError"
    by (simp add: demo_world_def)
  have "archive (demo_args\<lparr>archive := Some [''chunk.tar.gz'', ''missing.tar.gz'']\<rparr>)
      = Some [''chunk.tar.gz'', ''missing.tar.gz'']"
    by simp
  from unopenable_archive_aborts [OF this _ o, of "\<lambda>x. []"] o show ?thesis
    by simp
qed

lemma main_writes:
  "main repr wd a = (Inr (), wd') \<Longrightarrow>
     \<exists>rows. main_rows wd a = Inr rows \<and> writable wd (out a) \<and>
       wd' = wd\<lparr>files := (files wd)(out a \<mapsto> write_rows repr rows (csv_record keys))\<rparr>"
  by (auto simp: main_def write_csv_def split: sum.splits if_splits)

section \<open>Inputs on which the script raises\<close>

text \<open>
  C2. The parser does raise: the class id is converted by \<^verbatim>\<open>int\<close> after the \<^verbatim>\<open>try\<close> that
  guards the float conversions, so a first token that is a float but no integer (nan,
  inf) leaves \<open>parse_label_line\<close>, and the loop body, with an exception instead of being
  skipped.
\<close>

theorem class_id_not_a_number:
  "parse_label_line ''nan 0.5 0.5 0.1 0.1'' = Inl ValueError
   \<and> parse_label_line ''inf 0.5 0.5 0.1 0.1'' = Inl OverflowError
   \<and> process_line ''clip_7.txt'' 1080 1920 (Fin 30) ''nan 0.5 0.5 0.1 0.1'' = Inl ValueError"
  by (simp add: process_line_def parse_label_line_def char_defs str_defs float_defs)

text \<open>
  C4. An archive member that does not decode aborts the archive: the member that follows
  it contributes nothing and \<open>process_archive\<close> ends with the exception, where the same
  file in a directory is passed over.
\<close>

theorem archive_member_undecodable:
  "process_archive demo_world ''mixed.tar.gz'' 1080 1920 (Fin 30) = Inl UnicodeDecodeError
   \<and> process_dir demo_world ''labels'' 1080 1920 (Fin 30) =
       Inr [full_row ''clip_7.txt'' 7, empty_row ''clip_7.txt'' 7]"
  by (simp add: ev_demo_mixed ev_demo_dir)

text \<open>
  C6. The frame indexer does raise: a last segment made of a superscript digit passes
  \<^verbatim>\<open>isdigit\<close> and is refused by \<^verbatim>\<open>int\<close>. The three names of the specification give 42, 7 and
  no index.
\<close>

theorem frame_index_superscript:
  "extract_frame_index (''clip_'' @ [CHR 0xB2] @ ''.txt'') = Inl ValueError
   \<and> extract_frame_index ''video_00042.txt'' = Inr (Some 42)
   \<and> extract_frame_index ''clip_7.txt'' = Inr (Some 7)
   \<and> extract_frame_index ''nope.txt'' = Inr None"
  by (simp add: extract_frame_index_def frame_re_here_def char_defs str_defs float_defs)


section \<open>The CSV read back\<close>



















end
